theory Spec2Isabelle
  imports Main
begin

section \<open>The finite state machine framework of statemachine.py\<close>

text \<open>
  The module has two classes. \<^verbatim>\<open>State\<close> is a name with two optional callbacks and an
  end-state flag; \<^verbatim>\<open>StateMachine\<close> inherits from it and owns a set of states, a
  two-level dictionary from events and states to responses, and the loop of \<^verbatim>\<open>run\<close>.

  Callbacks are opaque Python callables. They are modelled as functions on an environment
  \<open>'w\<close>, which stands for everything the callbacks read and write (the dictionary
  \<^verbatim>\<open>_machine_data\<close> included, which the methods of the class never touch). A guard
  returns its verdict and the environment it leaves behind. Callbacks are taken to
  return; the exceptions modelled are the ones the methods themselves raise.
\<close>

subsection \<open>State\<close>

text \<open>
  \<^verbatim>\<open>State\<close> defines \<^verbatim>\<open>__eq__\<close>, which compares names, and no \<^verbatim>\<open>__hash__\<close>. Python then
  sets \<^verbatim>\<open>__hash__\<close> of the class to \<^verbatim>\<open>None\<close>: an instance of \<^verbatim>\<open>State\<close> is unhashable, and
  every operation that hashes it (making it a member of a set, using it as a dictionary
  key, looking it up) raises TypeError. An instance of a subclass that defines
  \<^verbatim>\<open>__hash__\<close> is hashable. The field \<open>hash_value\<close> is \<open>None\<close> for an instance of
  \<^verbatim>\<open>State\<close> itself and the value of \<^verbatim>\<open>__hash__\<close> for an instance of such a subclass.
\<close>

record 'w state =
  name :: string
  entry_action :: "('w \<Rightarrow> 'w) option"
  exit_action :: "('w \<Rightarrow> 'w) option"
  is_end_state :: bool
  hash_value :: "int option"

text \<open>\<^verbatim>\<open>State.__init__(name, entry_action=None, exit_action=None, end_state=False)\<close>\<close>

definition State :: "string \<Rightarrow> ('w \<Rightarrow> 'w) option \<Rightarrow> ('w \<Rightarrow> 'w) option \<Rightarrow> bool \<Rightarrow> 'w state" where
  "State nm entry exit end_state =
     \<lparr>name = nm, entry_action = entry, exit_action = exit, is_end_state = end_state,
      hash_value = None\<rparr>"

text \<open>
  The same object as an instance of a subclass of \<^verbatim>\<open>State\<close> whose \<^verbatim>\<open>__hash__\<close> returns
  \<open>h\<close> and which overrides nothing else.
\<close>

definition hashable :: "int \<Rightarrow> 'w state \<Rightarrow> 'w state" where
  "hashable h s = s\<lparr>hash_value := Some h\<rparr>"

datatype error = TypeError | AttributeError | KeyError

text \<open>
  Hashing a state for an operation of a set or a dictionary. Such a container finds an
  element by its hash and then by \<^verbatim>\<open>__eq__\<close>, which compares names: the hash and the name
  together say which element a state is.
\<close>

type_synonym key = "int \<times> string"

definition key_of :: "'w state \<Rightarrow> error + key" where
  "key_of s = (case hash_value s of None \<Rightarrow> Inl TypeError | Some h \<Rightarrow> Inr (h, name s))"

subsection \<open>Event, Response\<close>

type_synonym event = string

record ('p, 'w) response =
  next_state :: "'w state"
  action :: "('p \<Rightarrow> 'w \<Rightarrow> 'w) option"
  guard_condition :: "('w \<Rightarrow> bool \<times> 'w) option"

subsection \<open>Observed callback invocations\<close>

text \<open>
  Every invocation of a callback is recorded, in order. An exit or entry record carries
  the name of the state whose callback ran; a guard or transition action record carries
  the event and the name of \<^verbatim>\<open>_current_state\<close> at the moment of the call.
\<close>

datatype 'p call =
    InitialAction
  | GuardCondition event string
  | ExitAction string
  | TransitionAction event 'p string
  | EntryAction string
  | EndAction

subsection \<open>StateMachine\<close>

record ('s, 'p, 'w) state_machine = "'w state" +
  event_source :: 's
  current_state :: "'w state"
  initial_action :: "('w \<Rightarrow> 'w) option"
  end_action :: "('w \<Rightarrow> 'w) option"
  states :: "'w state set"
  state_table :: "event \<rightharpoonup> (key \<rightharpoonup> ('p, 'w) response)"

text \<open>
  \<^verbatim>\<open>StateMachine.__init__\<close>: the inherited fields are set by \<^verbatim>\<open>super().__init__(name)\<close>.
  Line 73, \<^verbatim>\<open>self._states = {initial_state}\<close>, hashes the initial state and raises
  TypeError when it is unhashable; then there is no machine.
\<close>

definition StateMachine ::
  "string \<Rightarrow> 's \<Rightarrow> 'w state \<Rightarrow> ('w \<Rightarrow> 'w) option \<Rightarrow> ('w \<Rightarrow> 'w) option
     \<Rightarrow> error + ('s, 'p, 'w) state_machine"
where
  "StateMachine nm src initial_state initial_act end_act =
     (case key_of initial_state of
        Inl e \<Rightarrow> Inl e
      | Inr k \<Rightarrow>
          Inr \<lparr>name = nm, entry_action = None, exit_action = None, is_end_state = False,
               hash_value = None,
               event_source = src, current_state = initial_state,
               initial_action = initial_act, end_action = end_act,
               states = {initial_state}, state_table = Map.empty\<rparr>)"

text \<open>The default value of the parameter \<^verbatim>\<open>initial_state\<close>.\<close>

definition default_initial_state :: "'w state" where
  "default_initial_state = State ''initial'' None None False"

text \<open>
  \<^verbatim>\<open>state in self._states\<close>: the test hashes the state, and a member of the set is found
  by its hash and its name.
\<close>

definition in_states :: "'w state \<Rightarrow> 'w state set \<Rightarrow> error + bool" where
  "in_states s S = (case key_of s of Inl e \<Rightarrow> Inl e | Inr k \<Rightarrow> Inr (Inr k \<in> key_of ` S))"

text \<open>
  Line 78, \<^verbatim>\<open>self._states.add(state)\<close>: raises TypeError for an unhashable state, before
  the set is changed; a state that is found in the set is not added again.
\<close>

definition add_state ::
  "('s, 'p, 'w) state_machine \<Rightarrow> 'w state \<Rightarrow> error + ('s, 'p, 'w) state_machine" where
  "add_state m s =
     (case in_states s (states m) of
        Inl e \<Rightarrow> Inl e
      | Inr present \<Rightarrow> Inr (if present then m else m\<lparr>states := insert s (states m)\<rparr>))"

definition add_event :: "('s, 'p, 'w) state_machine \<Rightarrow> event \<Rightarrow> ('s, 'p, 'w) state_machine" where
  "add_event m event =
     (if event \<notin> dom (state_table m)
      then m\<lparr>state_table := (state_table m)(event \<mapsto> Map.empty)\<rparr>
      else m)"

text \<open>
  \<^verbatim>\<open>add_table_entry\<close> changes the machine step by step, so an exception leaves the machine
  as the steps before it made it: the error comes with that machine. When \<^verbatim>\<open>add_state\<close>
  raises, the row that \<^verbatim>\<open>add_event\<close> made stays. In line 87,
  \<^verbatim>\<open>self._state_table[event][state] = response\<close>, the subscript \<^verbatim>\<open>[event]\<close> raises KeyError
  on a missing row and the assignment hashes the state.
\<close>

definition add_table_entry ::
  "('s, 'p, 'w) state_machine \<Rightarrow> event \<Rightarrow> 'w state \<Rightarrow> ('p, 'w) response
     \<Rightarrow> (error \<times> ('s, 'p, 'w) state_machine) + ('s, 'p, 'w) state_machine"
where
  "add_table_entry m event s r =
     (let m1 = add_event m event
      in case add_state m1 s of
           Inl e \<Rightarrow> Inl (e, m1)
         | Inr m2 \<Rightarrow>
             (case state_table m2 event of
                None \<Rightarrow> Inl (KeyError, m2)
              | Some row \<Rightarrow>
                  (case key_of s of
                     Inl e \<Rightarrow> Inl (e, m2)
                   | Inr k \<Rightarrow>
                       Inr (m2\<lparr>state_table := (state_table m2)(event \<mapsto> row(k \<mapsto> r))\<rparr>))))"

subsection \<open>The run loop\<close>

text \<open>
  What \<^verbatim>\<open>run\<close> has reached: the machine, the position of the iterator over the event
  source, the environment of the callbacks and the callbacks invoked so far.
\<close>

record ('s, 'p, 'w) config =
  machine :: "('s, 'p, 'w) state_machine"
  source :: 's
  env :: 'w
  calls :: "'p call list"

text \<open>\<^verbatim>\<open>if f: f()\<close> for the callbacks without a parameter.\<close>

definition invoke :: "('w \<Rightarrow> 'w) option \<Rightarrow> 'p call \<Rightarrow> ('s, 'p, 'w) config \<Rightarrow> ('s, 'p, 'w) config" where
  "invoke f c cfg =
     (case f of None \<Rightarrow> cfg | Some g \<Rightarrow> cfg\<lparr>env := g (env cfg), calls := calls cfg @ [c]\<rparr>)"

definition do_entry :: "'w state \<Rightarrow> ('s, 'p, 'w) config \<Rightarrow> ('s, 'p, 'w) config" where
  "do_entry s cfg = invoke (entry_action s) (EntryAction (name s)) cfg"

definition do_exit :: "'w state \<Rightarrow> ('s, 'p, 'w) config \<Rightarrow> ('s, 'p, 'w) config" where
  "do_exit s cfg = invoke (exit_action s) (ExitAction (name s)) cfg"

text \<open>
  Line 93, \<^verbatim>\<open>self._state_table.get(event).get(self._current_state)\<close>: the first
  \<^verbatim>\<open>get\<close> returns \<^verbatim>\<open>None\<close> for an event without a row, and \<^verbatim>\<open>None.get\<close> raises
  AttributeError. On a row, the second \<^verbatim>\<open>get\<close> hashes the current state, which raises
  TypeError when it is unhashable, also when the row is empty.
\<close>

definition required_response ::
  "('s, 'p, 'w) state_machine \<Rightarrow> event \<Rightarrow> error + ('p, 'w) response option" where
  "required_response m event =
     (case state_table m event of
        None \<Rightarrow> Inl AttributeError
      | Some row \<Rightarrow>
          (case key_of (current_state m) of
             Inl e \<Rightarrow> Inl e
           | Inr k \<Rightarrow> Inr (row k)))"

text \<open>Lines 98 to 102: exit, assignment, action, entry.\<close>

definition transition ::
  "('p, 'w) response \<Rightarrow> event \<Rightarrow> 'p \<Rightarrow> ('s, 'p, 'w) config \<Rightarrow> ('s, 'p, 'w) config" where
  "transition r event parameters cfg =
     (let c1 = do_exit (current_state (machine cfg)) cfg;
          c2 = c1\<lparr>machine := (machine c1)\<lparr>current_state := next_state r\<rparr>\<rparr>;
          c3 = (case action r of
                  None \<Rightarrow> c2
                | Some a \<Rightarrow>
                    c2\<lparr>env := a parameters (env c2),
                       calls := calls c2 @
                         [TransitionAction event parameters (name (current_state (machine c2)))]\<rparr>)
      in do_entry (current_state (machine c3)) c3)"

text \<open>
  One pass through the body of the \<^verbatim>\<open>for\<close> loop. The result is the error raised by the
  lookup, which leaves the configuration as it was, or the configuration reached
  together with a flag that is true when the body left the loop by \<^verbatim>\<open>break\<close>.
\<close>

definition iteration ::
  "('s, 'p, 'w) config \<Rightarrow> event \<Rightarrow> 'p \<Rightarrow> error + (bool \<times> ('s, 'p, 'w) config)" where
  "iteration cfg event parameters =
     (case required_response (machine cfg) event of
        Inl e \<Rightarrow> Inl e
      | Inr None \<Rightarrow> Inr (is_end_state (current_state (machine cfg)), cfg)
      | Inr (Some r) \<Rightarrow>
          (case guard_condition r of
             None \<Rightarrow>
               (let c' = transition r event parameters cfg
                in Inr (is_end_state (current_state (machine c')), c'))
           | Some g \<Rightarrow>
               (let c1 = cfg\<lparr>env := snd (g (env cfg)),
                             calls := calls cfg @
                               [GuardCondition event (name (current_state (machine cfg)))]\<rparr>
                in if \<not> fst (g (env cfg)) then Inr (False, c1)
                   else (let c' = transition r event parameters c1
                         in Inr (is_end_state (current_state (machine c')), c')))))"

text \<open>
  The \<^verbatim>\<open>for\<close> loop, over an iterator: \<open>nxt\<close> is its \<^verbatim>\<open>__next__\<close>, which gives the next
  pair of event and parameters with the advanced iterator, or \<open>None\<close> when the source is
  exhausted. A source may be infinite, so the loop need not return: the result
  \<open>None\<close> of \<open>run_loop\<close> stands for a loop that runs forever. An exception ends the loop
  and comes with the configuration it leaves.
\<close>

partial_function (option) run_loop ::
  "('s \<Rightarrow> ((event \<times> 'p) \<times> 's) option) \<Rightarrow> ('s, 'p, 'w) config
     \<Rightarrow> ((error \<times> ('s, 'p, 'w) config) + ('s, 'p, 'w) config) option"
where
  "run_loop nxt cfg =
     (case nxt (source cfg) of
        None \<Rightarrow> Some (Inr cfg)
      | Some ((event, parameters), rest) \<Rightarrow>
          (case iteration (cfg\<lparr>source := rest\<rparr>) event parameters of
             Inl e \<Rightarrow> Some (Inl (e, cfg\<lparr>source := rest\<rparr>))
           | Inr (stop, c') \<Rightarrow> if stop then Some (Inr c') else run_loop nxt c'))"

text \<open>
  The configuration in which \<^verbatim>\<open>run\<close> starts: nothing invoked yet, the iterator at the
  beginning of the event source.
\<close>

definition start :: "('s, 'p, 'w) state_machine \<Rightarrow> 'w \<Rightarrow> ('s, 'p, 'w) config" where
  "start m w = \<lparr>machine = m, source = event_source m, env = w, calls = []\<rparr>"

definition run ::
  "('s \<Rightarrow> ((event \<times> 'p) \<times> 's) option) \<Rightarrow> ('s, 'p, 'w) state_machine \<Rightarrow> 'w
     \<Rightarrow> ((error \<times> ('s, 'p, 'w) config) + ('s, 'p, 'w) config) option"
where
  "run nxt m w =
     (let c0 = invoke (initial_action m) InitialAction (start m w)
      in case run_loop nxt c0 of
           None \<Rightarrow> None
         | Some (Inl ec) \<Rightarrow> Some (Inl ec)
         | Some (Inr c) \<Rightarrow> Some (Inr (invoke (end_action (machine c)) EndAction c)))"

text \<open>A finite sequence of events as a source.\<close>

definition list_source :: "'a list \<Rightarrow> ('a \<times> 'a list) option" where
  "list_source xs = (case xs of [] \<Rightarrow> None | x # rest \<Rightarrow> Some (x, rest))"

subsection \<open>What is observed of a machine\<close>


subsection \<open>Example machines\<close>

text \<open>
  The callbacks of the examples write a line to a log, which is their environment; the
  parameters of the events are numbers. The states A, B, C and E are instances of a
  subclass of \<^verbatim>\<open>State\<close> that defines \<^verbatim>\<open>__hash__\<close>; \<open>plain_B\<close> is an instance of \<^verbatim>\<open>State\<close>
  itself. The machines are what the constructor and the methods return.
\<close>

definition log_line :: "string \<Rightarrow> string list \<Rightarrow> string list" where
  "log_line line w = w @ [line]"

definition allow :: "string list \<Rightarrow> bool \<times> string list" where
  "allow w = (True, log_line ''guard'' w)"

definition refuse :: "string list \<Rightarrow> bool \<times> string list" where
  "refuse w = (False, log_line ''guard'' w)"

definition act :: "nat \<Rightarrow> string list \<Rightarrow> string list" where
  "act p w = log_line ''act'' w"

definition st_A :: "string list state" where
  "st_A = hashable 1 (State ''A'' (Some (log_line ''enter A'')) (Some (log_line ''exit A'')) False)"

definition st_B :: "string list state" where
  "st_B = hashable 2 (State ''B'' (Some (log_line ''enter B'')) (Some (log_line ''exit B'')) False)"

definition st_C :: "string list state" where
  "st_C = hashable 3 (State ''C'' (Some (log_line ''enter C'')) None True)"

definition st_E :: "string list state" where
  "st_E = hashable 5 (State ''E'' (Some (log_line ''enter E'')) (Some (log_line ''exit E'')) True)"


definition go_AB :: "(nat, string list) response" where
  "go_AB = \<lparr>next_state = st_B, action = Some act, guard_condition = Some allow\<rparr>"

definition go_BC :: "(nat, string list) response" where
  "go_BC = \<lparr>next_state = st_C, action = None, guard_condition = None\<rparr>"

definition go_refused :: "(nat, string list) response" where
  "go_refused = \<lparr>next_state = st_B, action = Some act, guard_condition = Some refuse\<rparr>"

text \<open>A machine in state A with an empty table; its source holds one \<open>go\<close>.\<close>

definition fresh_machine :: "((event \<times> nat) list, nat, string list) state_machine" where
  "fresh_machine = projr (StateMachine ''fresh'' [(''go'', 1)] st_A None None)"

text \<open>
  States A, B and the end state C; \<open>go\<close> leads from A to B and from B to C; the source
  holds three \<open>go\<close> events. The machine is built by the constructor, two calls of
  \<^verbatim>\<open>add_table_entry\<close> and one of \<^verbatim>\<open>add_state\<close>.
\<close>

definition go_0 :: "((event \<times> nat) list, nat, string list) state_machine" where
  "go_0 = projr (StateMachine ''go'' [(''go'', 1), (''go'', 2), (''go'', 3)] st_A
                   (Some (log_line ''initial'')) (Some (log_line ''end'')))"

definition go_1 :: "((event \<times> nat) list, nat, string list) state_machine" where
  "go_1 = projr (add_table_entry go_0 ''go'' st_A go_AB)"

definition go_2 :: "((event \<times> nat) list, nat, string list) state_machine" where
  "go_2 = projr (add_table_entry go_1 ''go'' st_B go_BC)"

definition go_machine :: "((event \<times> nat) list, nat, string list) state_machine" where
  "go_machine = projr (add_state go_2 st_C)"

text \<open>
  A machine that starts in the end state E. Its guard refuses \<open>go\<close>, and \<open>tick\<close> has a row
  without an entry, made by \<^verbatim>\<open>add_event\<close>.
\<close>

definition halted_0 :: "((event \<times> nat) list, nat, string list) state_machine" where
  "halted_0 =
     projr (StateMachine ''halted'' [(''go'', 1), (''tick'', 2), (''tick'', 3)] st_E None None)"

definition halted_machine :: "((event \<times> nat) list, nat, string list) state_machine" where
  "halted_machine = projr (add_table_entry (add_event halted_0 ''tick'') ''go'' st_E go_refused)"


text \<open>
  The configuration that the run of the second machine, started on an empty log, has
  reached after its first event: in state B, with two events left.
\<close>

definition at_B :: "((event \<times> nat) list, nat, string list) config" where
  "at_B = \<lparr>machine = go_machine\<lparr>current_state := st_B\<rparr>,
           source = [(''go'', 2), (''go'', 3)],
           env = [''initial'', ''guard'', ''exit A'', ''act'', ''enter B''],
           calls = [InitialAction, GuardCondition ''go'' ''A'', ExitAction ''A'',
                    TransitionAction ''go'' 1 ''B'', EntryAction ''B'']\<rparr>"

text \<open>The same run when its first event is dispatched, after the initial action.\<close>

definition go_start :: "((event \<times> nat) list, nat, string list) config" where
  "go_start = \<lparr>machine = go_machine, source = [(''go'', 2), (''go'', 3)],
               env = [''initial''], calls = [InitialAction]\<rparr>"

text \<open>
  The run of the third machine, started on an empty log, when \<open>go\<close> is dispatched and
  when the first \<open>tick\<close> is.
\<close>

definition halted_at_go :: "((event \<times> nat) list, nat, string list) config" where
  "halted_at_go = \<lparr>machine = halted_machine, source = [(''tick'', 2), (''tick'', 3)],
                   env = [], calls = []\<rparr>"

definition halted_at_tick :: "((event \<times> nat) list, nat, string list) config" where
  "halted_at_tick = \<lparr>machine = halted_machine, source = [(''tick'', 3)],
                     env = [''guard''], calls = [GuardCondition ''go'' ''E'']\<rparr>"

text \<open>A machine whose source holds no event.\<close>

definition idle_machine :: "((event \<times> nat) list, nat, string list) state_machine" where
  "idle_machine = projr (StateMachine ''idle'' [] st_A None (Some (log_line ''end'')))"

lemmas state_defs =
  log_line_def allow_def act_def st_A_def st_B_def st_C_def go_AB_def go_BC_def
  hashable_def State_def key_of_def

lemmas build_defs =
  StateMachine_def add_table_entry_def add_event_def add_state_def in_states_def Let_def

lemmas run_defs =
  run_def run_loop.simps iteration_def required_response_def transition_def
  do_exit_def do_entry_def invoke_def list_source_def start_def Let_def

section \<open>Properties of the methods\<close>

subsection \<open>The example machines\<close>

lemma fresh_machine_built:
  "StateMachine ''fresh'' [(''go'', 1)] st_A None None = Inr fresh_machine"
  by (simp add: fresh_machine_def build_defs state_defs)

lemma fresh_machine_eq:
  "fresh_machine =
     \<lparr>name = ''fresh'', entry_action = None, exit_action = None, is_end_state = False,
      hash_value = None, event_source = [(''go'', 1)], current_state = st_A,
      initial_action = None, end_action = None, states = {st_A}, state_table = Map.empty\<rparr>"
  by (simp add: fresh_machine_def build_defs state_defs)

lemma go_machine_eq:
  "go_machine =
     \<lparr>name = ''go'', entry_action = None, exit_action = None, is_end_state = False,
      hash_value = None, event_source = [(''go'', 1), (''go'', 2), (''go'', 3)],
      current_state = st_A,
      initial_action = Some (log_line ''initial''), end_action = Some (log_line ''end''),
      states = {st_C, st_B, st_A},
      state_table = [''go'' \<mapsto> [(1, ''A'') \<mapsto> go_AB, (2, ''B'') \<mapsto> go_BC]]\<rparr>"
  by (simp add: go_machine_def go_2_def go_1_def go_0_def build_defs state_defs)

lemma go_machine_built:
  "StateMachine ''go'' [(''go'', 1), (''go'', 2), (''go'', 3)] st_A
     (Some (log_line ''initial'')) (Some (log_line ''end'')) = Inr go_0
   \<and> add_table_entry go_0 ''go'' st_A go_AB = Inr go_1
   \<and> add_table_entry go_1 ''go'' st_B go_BC = Inr go_2
   \<and> add_state go_2 st_C = Inr go_machine"
  by (simp add: go_machine_def go_2_def go_1_def go_0_def build_defs state_defs)

lemma halted_machine_eq:
  "halted_machine =
     \<lparr>name = ''halted'', entry_action = None, exit_action = None, is_end_state = False,
      hash_value = None, event_source = [(''go'', 1), (''tick'', 2), (''tick'', 3)],
      current_state = st_E, initial_action = None, end_action = None, states = {st_E},
      state_table = [''tick'' \<mapsto> Map.empty, ''go'' \<mapsto> [(5, ''E'') \<mapsto> go_refused]]\<rparr>"
  by (simp add: halted_machine_def halted_0_def build_defs state_defs st_E_def go_refused_def)

lemma halted_machine_built:
  "StateMachine ''halted'' [(''go'', 1), (''tick'', 2), (''tick'', 3)] st_E None None = Inr halted_0
   \<and> add_table_entry (add_event halted_0 ''tick'') ''go'' st_E go_refused = Inr halted_machine"
  by (simp add: halted_machine_def halted_0_def build_defs state_defs st_E_def go_refused_def)

lemma idle_machine_built:
  "StateMachine ''idle'' [] st_A None (Some (log_line ''end'')) = Inr idle_machine"
  by (simp add: idle_machine_def build_defs state_defs)

lemma idle_machine_eq:
  "idle_machine =
     \<lparr>name = ''idle'', entry_action = None, exit_action = None, is_end_state = False,
      hash_value = None, event_source = [], current_state = st_A,
      initial_action = None, end_action = Some (log_line ''end''), states = {st_A},
      state_table = Map.empty\<rparr>"
  by (simp add: idle_machine_def build_defs state_defs)

lemma go_start_reached:
  "(invoke (initial_action go_machine) InitialAction (start go_machine []))
     \<lparr>source := [(''go'', 2), (''go'', 3)]\<rparr> = go_start"
  by (simp add: go_start_def invoke_def start_def go_machine_eq state_defs)

lemma at_B_reached: "iteration go_start ''go'' 1 = Inr (False, at_B)"
  by (simp add: at_B_def go_start_def iteration_def required_response_def transition_def
      do_exit_def do_entry_def invoke_def Let_def go_machine_eq state_defs)

lemma halted_at_go_reached:
  "(invoke (initial_action halted_machine) InitialAction (start halted_machine []))
     \<lparr>source := [(''tick'', 2), (''tick'', 3)]\<rparr> = halted_at_go"
  by (simp add: halted_at_go_def invoke_def start_def halted_machine_eq)

lemma halted_at_tick_reached:
  "iteration halted_at_go ''go'' 1 =
     Inr (False, halted_at_tick\<lparr>source := [(''tick'', 2), (''tick'', 3)]\<rparr>)"
  by (simp add: halted_at_go_def halted_at_tick_def iteration_def required_response_def
      halted_machine_eq st_E_def go_refused_def refuse_def state_defs)



subsection \<open>Callbacks and the transition\<close>

lemma invoke_machine [simp]: "machine (invoke f c cfg) = machine cfg"
  by (simp add: invoke_def split: option.split)

lemma invoke_source [simp]: "source (invoke f c cfg) = source cfg"
  by (simp add: invoke_def split: option.split)

lemma invoke_calls:
  "calls (invoke f c cfg) = calls cfg @ (case f of None \<Rightarrow> [] | Some g \<Rightarrow> [c])"
  by (simp add: invoke_def split: option.split)

lemma invoke_env:
  "env (invoke f c cfg) = (case f of None \<Rightarrow> env cfg | Some g \<Rightarrow> g (env cfg))"
  by (simp add: invoke_def split: option.split)

lemma transition_machine:
  "machine (transition r ev p cfg) = (machine cfg)\<lparr>current_state := next_state r\<rparr>"
  by (simp add: transition_def do_exit_def do_entry_def Let_def split: option.split)

lemma transition_source: "source (transition r ev p cfg) = source cfg"
  by (simp add: transition_def do_exit_def do_entry_def Let_def split: option.split)

lemma transition_calls:
  "calls (transition r ev p cfg) =
     calls cfg
       @ (case exit_action (current_state (machine cfg)) of
            None \<Rightarrow> [] | Some f \<Rightarrow> [ExitAction (name (current_state (machine cfg)))])
       @ (case action r of
            None \<Rightarrow> [] | Some a \<Rightarrow> [TransitionAction ev p (name (next_state r))])
       @ (case entry_action (next_state r) of
            None \<Rightarrow> [] | Some f \<Rightarrow> [EntryAction (name (next_state r))])"
  by (simp add: transition_def do_exit_def do_entry_def Let_def invoke_calls split: option.split)

lemma transition_env:
  "env (transition r ev p cfg) =
     (case entry_action (next_state r) of None \<Rightarrow> id | Some f \<Rightarrow> f)
       ((case action r of None \<Rightarrow> id | Some a \<Rightarrow> a p)
          ((case exit_action (current_state (machine cfg)) of None \<Rightarrow> id | Some f \<Rightarrow> f)
             (env cfg)))"
  by (simp add: transition_def do_exit_def do_entry_def Let_def invoke_env split: option.split)

subsection \<open>Invariants of the loop\<close>

lemmas run_loop_induct = run_loop.raw_induct [rotated, consumes 1, case_names unfold]

lemma run_loop_invariant:
  assumes ret: "run_loop nxt c = Some (Inr c')"
    and init: "P c"
    and step: "\<And>c ev p rest stop c1. P c \<Longrightarrow> nxt (source c) = Some ((ev, p), rest) \<Longrightarrow>
                 iteration (c\<lparr>source := rest\<rparr>) ev p = Inr (stop, c1) \<Longrightarrow> P c1"
  shows "P c'"
proof -
  have gen: "run_loop nxt0 c0 = Some y \<Longrightarrow> nxt0 = nxt \<longrightarrow> (\<forall>c'. y = Inr c' \<longrightarrow> P c0 \<longrightarrow> P c')" for nxt0 c0 y
  proof (induct rule: run_loop_induct)
    case (unfold loop n cfg y)
    show ?case
    proof (intro impI allI)
      fix c' assume n: "n = nxt" and y: "y = Inr c'" and P: "P cfg"
      show "P c'"
      proof (cases "nxt (source cfg)")
        case None
        with unfold(2) n y show ?thesis using P by simp
      next
        case (Some a)
        then obtain ev p rest where a: "nxt (source cfg) = Some ((ev, p), rest)"
          by (cases a) auto
        show ?thesis
        proof (cases "iteration (cfg\<lparr>source := rest\<rparr>) ev p")
          case (Inl e)
          with unfold(2) n y a show ?thesis by simp
        next
          case (Inr b)
          then obtain stop c1 where it: "iteration (cfg\<lparr>source := rest\<rparr>) ev p = Inr (stop, c1)"
            by (cases b) auto
          have P1: "P c1" using step [OF P a it] .
          show ?thesis
          proof (cases stop)
            case True
            with unfold(2) n y a it have "c' = c1" by simp
            with P1 show ?thesis by simp
          next
            case False
            with unfold(2) n y a it have "loop nxt c1 = Some (Inr c')" by simp
            from unfold(1) [OF this] P1 show ?thesis by simp
          qed
        qed
      qed
    qed
  qed
  from gen [OF ret] init show ?thesis by simp
qed


subsection \<open>The cases of one iteration\<close>

lemma iteration_error:
  "required_response (machine c) ev = Inl e \<Longrightarrow> iteration c ev p = Inl e"
  by (simp add: iteration_def)

lemma iteration_no_match:
  "required_response (machine c) ev = Inr None \<Longrightarrow>
   iteration c ev p = Inr (is_end_state (current_state (machine c)), c)"
  by (simp add: iteration_def)

lemma iteration_unguarded:
  "required_response (machine c) ev = Inr (Some r) \<Longrightarrow> guard_condition r = None \<Longrightarrow>
   iteration c ev p = Inr (is_end_state (next_state r), transition r ev p c)"
  by (simp add: iteration_def Let_def transition_machine)

lemma iteration_guarded:
  "required_response (machine c) ev = Inr (Some r) \<Longrightarrow> guard_condition r = Some g \<Longrightarrow>
   iteration c ev p =
     (if fst (g (env c))
      then Inr (is_end_state (next_state r),
                transition r ev p
                  (c\<lparr>env := snd (g (env c)),
                     calls := calls c @ [GuardCondition ev (name (current_state (machine c)))]\<rparr>))
      else Inr (False,
                c\<lparr>env := snd (g (env c)),
                  calls := calls c @ [GuardCondition ev (name (current_state (machine c)))]\<rparr>))"
  by (simp add: iteration_def Let_def transition_machine)

lemma iteration_cases [consumes 1, case_names no_match suppressed performed]:
  assumes "iteration c ev p = Inr (stop, c')"
  obtains
    "required_response (machine c) ev = Inr None" and "c' = c"
      and "stop = is_end_state (current_state (machine c))"
  | r g where "required_response (machine c) ev = Inr (Some r)" and "guard_condition r = Some g"
      and "\<not> fst (g (env c))"
      and "c' = c\<lparr>env := snd (g (env c)),
                    calls := calls c @ [GuardCondition ev (name (current_state (machine c)))]\<rparr>"
      and "\<not> stop"
  | r where "required_response (machine c) ev = Inr (Some r)"
      and "case guard_condition r of None \<Rightarrow> True | Some g \<Rightarrow> fst (g (env c))"
      and "c' = transition r ev p
                  (case guard_condition r of
                     None \<Rightarrow> c
                   | Some g \<Rightarrow>
                       c\<lparr>env := snd (g (env c)),
                         calls := calls c @ [GuardCondition ev (name (current_state (machine c)))]\<rparr>)"
      and "stop = is_end_state (next_state r)"
proof (cases "required_response (machine c) ev")
  case (Inl e)
  with assms show ?thesis by (simp add: iteration_error)
next
  case (Inr found)
  show ?thesis
  proof (cases found)
    case None
    with Inr have rr: "required_response (machine c) ev = Inr None" by simp
    from assms have "c' = c" and "stop = is_end_state (current_state (machine c))"
      unfolding iteration_no_match [OF rr] by auto
    with rr show ?thesis by (rule that(1))
  next
    case (Some r)
    with Inr have rr: "required_response (machine c) ev = Inr (Some r)" by simp
    show ?thesis
    proof (cases "guard_condition r")
      case None
      from assms have "c' = transition r ev p c" and "stop = is_end_state (next_state r)"
        unfolding iteration_unguarded [OF rr None] by auto
      with rr None show ?thesis by (intro that(3) [of r]) simp_all
    next
      case g: (Some g)
      show ?thesis
      proof (cases "fst (g (env c))")
        case True
        from assms True
        have "c' = transition r ev p
                (c\<lparr>env := snd (g (env c)),
                   calls := calls c @ [GuardCondition ev (name (current_state (machine c)))]\<rparr>)"
          and "stop = is_end_state (next_state r)"
          unfolding iteration_guarded [OF rr g] by auto
        with rr g True show ?thesis by (intro that(3) [of r]) simp_all
      next
        case False
        from assms False
        have "c' = c\<lparr>env := snd (g (env c)),
                     calls := calls c @ [GuardCondition ev (name (current_state (machine c)))]\<rparr>"
          and "\<not> stop"
          unfolding iteration_guarded [OF rr g] by auto
        with rr g False show ?thesis by (intro that(2) [of r g]) simp_all
      qed
    qed
  qed
qed

lemma iteration_frame:
  assumes "iteration c ev p = Inr (stop, c')"
  shows "state_table (machine c') = state_table (machine c)"
    and "states (machine c') = states (machine c)"
    and "end_action (machine c') = end_action (machine c)"
    and "source c' = source c"
  using assms
  by (cases rule: iteration_cases; simp add: transition_machine transition_source split: option.split)+

subsection \<open>Registration of states and events\<close>

lemma key_of_State [simp]: "key_of (State nm entry exit end_state) = Inl TypeError"
  by (simp add: key_of_def State_def)

lemma key_of_hashable [simp]: "key_of (hashable h s) = Inr (h, name s)"
  by (simp add: key_of_def hashable_def)

lemma key_of_Inr: "key_of s = Inr k \<longleftrightarrow> hash_value s = Some (fst k) \<and> name s = snd k"
  by (auto simp: key_of_def split: option.splits)

lemma key_of_Inl: "key_of s = Inl e \<longleftrightarrow> hash_value s = None \<and> e = TypeError"
  by (auto simp: key_of_def split: option.splits)

lemma in_states_Inr: "key_of s = Inr k \<Longrightarrow> in_states s S = Inr (Inr k \<in> key_of ` S)"
  by (simp add: in_states_def)



lemma StateMachine_unhashable:
  "key_of s0 = Inl e \<Longrightarrow> StateMachine nm src s0 ia ea = Inl e"
  by (simp add: StateMachine_def)

lemma StateMachine_default: "StateMachine nm src default_initial_state ia ea = Inl TypeError"
  by (simp add: StateMachine_def default_initial_state_def)






lemma add_event_fields [simp]:
  "current_state (add_event m e) = current_state m"
  "states (add_event m e) = states m"
  by (simp_all add: add_event_def)






subsection \<open>The loop over a finite source returns\<close>

lemma run_loop_list_returns: "\<exists>y. run_loop list_source c = Some y"
proof (induction xs \<equiv> "source c" arbitrary: c)
  case Nil
  then show ?case
    by (subst run_loop.simps) (simp add: list_source_def)
next
  case (Cons x xs)
  obtain ev p where x: "x = (ev, p)" by (cases x)
  from Cons(2) x have "source c = (ev, p) # xs" by simp
  then have nxt: "list_source (source c) = Some ((ev, p), xs)"
    by (simp add: list_source_def)
  show ?case
  proof (cases "iteration (c\<lparr>source := xs\<rparr>) ev p")
    case (Inl e)
    with nxt show ?thesis by (subst run_loop.simps) simp
  next
    case (Inr b)
    then obtain stop c1 where it: "iteration (c\<lparr>source := xs\<rparr>) ev p = Inr (stop, c1)"
      by (cases b) auto
    from iteration_frame(4) [OF it] have "xs = source c1" by simp
    from Cons(1) [OF this] obtain y where "run_loop list_source c1 = Some y" ..
    with nxt it show ?thesis by (subst run_loop.simps) simp
  qed
qed

lemma run_list_returns: "\<exists>y. run list_source m w = Some y"
proof -
  obtain y where "run_loop list_source (invoke (initial_action m) InitialAction (start m w)) = Some y"
    using run_loop_list_returns by blast
  then show ?thesis by (cases y) (simp_all add: run_def Let_def)
qed

subsection \<open>What the loop leaves untouched\<close>

lemma iteration_calls_no_end:
  assumes "iteration c ev p = Inr (stop, c')" and "EndAction \<notin> set (calls c)"
  shows "EndAction \<notin> set (calls c')"
  using assms
  by (cases rule: iteration_cases) (auto simp: transition_calls split: option.splits)

lemma run_loop_calls_no_end:
  assumes "run_loop nxt c = Some (Inr c')" and "EndAction \<notin> set (calls c)"
  shows "EndAction \<notin> set (calls c') \<and> end_action (machine c') = end_action (machine c)"
proof -
  let ?P = "\<lambda>d. EndAction \<notin> set (calls d) \<and> end_action (machine d) = end_action (machine c)"
  have "?P c'"
  proof (rule run_loop_invariant [where P = ?P, OF assms(1)])
    show "?P c" using assms(2) by simp
  next
    fix d :: "('a, 'b, 'c) config" and ev p rest stop d1
    assume P: "?P d" and it: "iteration (d\<lparr>source := rest\<rparr>) ev p = Inr (stop, d1)"
    from iteration_calls_no_end [OF it] iteration_frame(3) [OF it] P
    show "?P d1" by simp
  qed
  then show ?thesis .
qed

lemma run_loop_end_state:
  assumes nxt: "nxt (source c) = Some ((ev, p), rest)"
    and found: "required_response (machine c) ev = Inr (Some r)"
    and guard: "case guard_condition r of None \<Rightarrow> True | Some g \<Rightarrow> fst (g (env c))"
    and ended: "is_end_state (next_state r)"
  shows "\<exists>c'. run_loop nxt c = Some (Inr c') \<and> source c' = rest
           \<and> current_state (machine c') = next_state r"
proof (cases "guard_condition r")
  case None
  with found ended
  have "iteration (c\<lparr>source := rest\<rparr>) ev p = Inr (True, transition r ev p (c\<lparr>source := rest\<rparr>))"
    by (simp add: iteration_unguarded)
  with nxt have "run_loop nxt c = Some (Inr (transition r ev p (c\<lparr>source := rest\<rparr>)))"
    by (subst run_loop.simps) simp
  then show ?thesis by (simp add: transition_source transition_machine)
next
  case (Some g)
  let ?c1 = "c\<lparr>source := rest, env := snd (g (env c)),
               calls := calls c @ [GuardCondition ev (name (current_state (machine c)))]\<rparr>"
  from Some found guard ended
  have "iteration (c\<lparr>source := rest\<rparr>) ev p = Inr (True, transition r ev p ?c1)"
    by (simp add: iteration_guarded)
  with nxt have "run_loop nxt c = Some (Inr (transition r ev p ?c1))"
    by (subst run_loop.simps) simp
  then show ?thesis by (simp add: transition_source transition_machine)
qed

lemma run_after_loop:
  assumes "run_loop nxt (invoke (initial_action m) InitialAction (start m w)) = Some (Inr d)"
  shows "run nxt m w = Some (Inr (invoke (end_action m) EndAction d))"
    and "EndAction \<notin> set (calls d)"
proof -
  let ?c0 = "invoke (initial_action m) InitialAction (start m w)"
  have "EndAction \<notin> set (calls ?c0)"
    by (simp add: invoke_calls start_def split: option.split)
  from run_loop_calls_no_end [OF assms this]
  show "EndAction \<notin> set (calls d)" and "run nxt m w = Some (Inr (invoke (end_action m) EndAction d))"
    using assms by (simp_all add: run_def Let_def start_def)
qed

subsection \<open>Where entry actions come from\<close>

lemma iteration_new_entry:
  assumes it: "iteration c ev p = Inr (stop, c')"
    and new: "EntryAction n \<in> set (drop (length (calls c)) (calls c'))"
  shows "\<exists>r. required_response (machine c) ev = Inr (Some r)
           \<and> (case guard_condition r of None \<Rightarrow> True | Some g \<Rightarrow> fst (g (env c)))
           \<and> current_state (machine c') = next_state r \<and> name (next_state r) = n"
  using it
proof (cases rule: iteration_cases)
  case no_match
  with new show ?thesis by simp
next
  case (suppressed r g)
  with new show ?thesis by simp
next
  case (performed r)
  from performed(3) new have "name (next_state r) = n"
    by (auto simp: transition_calls split: option.splits)
  moreover from performed(3) have "current_state (machine c') = next_state r"
    by (simp add: transition_machine split: option.split)
  ultimately show ?thesis using performed(1,2) by blast
qed

lemma iteration_calls_extend:
  assumes "iteration c ev p = Inr (stop, c')"
  shows "take (length (calls c)) (calls c') = calls c"
  using assms
  by (cases rule: iteration_cases) (auto simp: transition_calls split: option.splits)

lemma run_loop_entries:
  fixes c :: "('s, 'p, 'w) config"
  assumes loop: "run_loop nxt c = Some (Inr c')"
    and start: "\<forall>n. EntryAction n \<in> set (calls c) \<longrightarrow>
                 (\<exists>ev row k r. state_table (machine c) ev = Some row \<and> row k = Some r
                    \<and> name (next_state r) = n)"
  shows "\<forall>n. EntryAction n \<in> set (calls c') \<longrightarrow>
           (\<exists>ev row k r. state_table (machine c) ev = Some row \<and> row k = Some r
              \<and> name (next_state r) = n)"
proof -
  let ?T = "state_table (machine c)"
  let ?P = "\<lambda>d :: ('s, 'p, 'w) config. state_table (machine d) = ?T \<and>
              (\<forall>n. EntryAction n \<in> set (calls d) \<longrightarrow>
                 (\<exists>ev row k r. ?T ev = Some row \<and> row k = Some r \<and> name (next_state r) = n))"
  have "?P c'"
  proof (rule run_loop_invariant [where P = ?P, OF loop])
    show "?P c" using start by simp
  next
    fix d :: "('s, 'p, 'w) config" and ev p rest stop d1
    assume P: "?P d" and it: "iteration (d\<lparr>source := rest\<rparr>) ev p = Inr (stop, d1)"
    have "\<exists>ev row k r. ?T ev = Some row \<and> row k = Some r \<and> name (next_state r) = n"
      if n: "EntryAction n \<in> set (calls d1)" for n
    proof (cases "EntryAction n \<in> set (calls d)")
      case True
      with P show ?thesis by blast
    next
      case False
      from iteration_calls_extend [OF it] have "take (length (calls d)) (calls d1) = calls d"
        by simp
      with False have "EntryAction n \<notin> set (take (length (calls d)) (calls d1))" by simp
      with n have "EntryAction n \<in> set (drop (length (calls d)) (calls d1))"
        by (metis Un_iff append_take_drop_id set_append)
      with iteration_new_entry [OF it, of n]
      obtain r where "required_response (machine d) ev = Inr (Some r)" and "name (next_state r) = n"
        by auto
      moreover from this(1) P obtain row k where "?T ev = Some row" and "row k = Some r"
        by (auto simp: required_response_def split: option.splits sum.splits)
      ultimately show ?thesis by blast
    qed
    with P iteration_frame(1) [OF it] show "?P d1" by simp
  qed
  then show ?thesis by simp
qed

lemma run_entries:
  assumes "run nxt m w = Some (Inr d)" and "EntryAction n \<in> set (calls d)"
  shows "\<exists>ev row k r. state_table m ev = Some row \<and> row k = Some r \<and> name (next_state r) = n"
proof -
  let ?c0 = "invoke (initial_action m) InitialAction (start m w)"
  from assms(1) obtain d0 where loop: "run_loop nxt ?c0 = Some (Inr d0)"
    and d: "d = invoke (end_action (machine d0)) EndAction d0"
    by (auto simp: run_def Let_def split: option.splits sum.splits)
  have "\<forall>n. EntryAction n \<in> set (calls ?c0) \<longrightarrow>
          (\<exists>ev row k r. state_table (machine ?c0) ev = Some row \<and> row k = Some r
             \<and> name (next_state r) = n)"
    by (simp add: invoke_calls start_def split: option.split)
  from run_loop_entries [OF loop this]
  have "\<forall>n. EntryAction n \<in> set (calls d0) \<longrightarrow>
          (\<exists>ev row k r. state_table m ev = Some row \<and> row k = Some r \<and> name (next_state r) = n)"
    by (simp add: start_def)
  moreover from assms(2) d have "EntryAction n \<in> set (calls d0)"
    by (simp add: invoke_calls split: option.splits)
  ultimately show ?thesis by blast
qed

section \<open>The claims\<close>

subsection \<open>An event without a row\<close>

text \<open>
  Claim C1: an event of the source for which the transition table has no row is ignored
  in silence by \<^verbatim>\<open>run\<close>, without an error, a callback or a change of state, and the loop
  goes on to the next event.

  The code does otherwise. For such an event \<^verbatim>\<open>self._state_table.get(event)\<close> is
  \<^verbatim>\<open>None\<close>, and the call of \<^verbatim>\<open>get\<close> on it raises AttributeError, which ends \<^verbatim>\<open>run\<close>
  with the event read, no later event read and the end action not invoked. This holds
  of every machine, whatever its current state: the first \<^verbatim>\<open>get\<close> comes before the
  current state is hashed. An event whose row lacks an entry for the current state goes
  through the same line and is ignored.
\<close>

theorem run_unregistered_event_raises:
  assumes "nxt (event_source m) = Some ((ev, p), rest)"
    and "state_table m ev = None"
  shows "run nxt m w =
           Some (Inl (AttributeError,
                      (invoke (initial_action m) InitialAction (start m w))\<lparr>source := rest\<rparr>))"
proof -
  let ?c0 = "invoke (initial_action m) InitialAction (start m w)"
  have "required_response (machine (?c0\<lparr>source := rest\<rparr>)) ev = Inl AttributeError"
    using assms(2) by (simp add: required_response_def start_def)
  then have "iteration (?c0\<lparr>source := rest\<rparr>) ev p = Inl AttributeError"
    by (rule iteration_error)
  moreover have "nxt (source ?c0) = Some ((ev, p), rest)"
    using assms(1) by (simp add: start_def)
  ultimately have "run_loop nxt ?c0 = Some (Inl (AttributeError, ?c0\<lparr>source := rest\<rparr>))"
    by (subst run_loop.simps) simp
  then show ?thesis by (simp add: run_def Let_def)
qed

theorem run_unregistered_event_raises_witness:
  "StateMachine ''fresh'' [(''go'', 1)] st_A None None = Inr fresh_machine
   \<and> list_source (event_source fresh_machine) = Some ((''go'', 1), [])
   \<and> state_table fresh_machine ''go'' = None
   \<and> run list_source fresh_machine [] =
       Some (Inl (AttributeError, \<lparr>machine = fresh_machine, source = [], env = [], calls = []\<rparr>))"
proof -
  have src: "list_source (event_source fresh_machine) = Some ((''go'', 1), [])"
    by (simp add: fresh_machine_eq list_source_def)
  have row: "state_table fresh_machine ''go'' = None"
    by (simp add: fresh_machine_eq)
  have none: "initial_action fresh_machine = None"
    by (simp add: fresh_machine_eq)
  from run_unregistered_event_raises [where nxt = list_source and w = "[]", OF src row]
    src row fresh_machine_built
  show ?thesis by (simp add: none invoke_def start_def)
qed

subsection \<open>The order of the callbacks of a transition\<close>

text \<open>
  Claim C2: when a response is found and its guard is absent or true, \<^verbatim>\<open>run\<close> invokes the
  exit action of the old current state, then sets the current state to the next state of
  the response, then invokes the action of the response, if there is one, with the
  parameters of the event, then invokes the entry action of the new current state. The
  exit of the old state comes before the entry of the new one and the action between
  them.

  The action is recorded with the name of the current state at its call, which is the
  new state: the assignment precedes it. A response is found only when the current state
  is hashable.
\<close>

theorem transition_order:
  assumes "required_response (machine c) ev = Inr (Some r)"
    and "case guard_condition r of None \<Rightarrow> True | Some g \<Rightarrow> fst (g (env c))"
  shows "\<exists>c'. iteration c ev p = Inr (is_end_state (next_state r), c')
          \<and> machine c' = (machine c)\<lparr>current_state := next_state r\<rparr>
          \<and> calls c' =
              calls c
              @ (case guard_condition r of
                   None \<Rightarrow> [] | Some g \<Rightarrow> [GuardCondition ev (name (current_state (machine c)))])
              @ (case exit_action (current_state (machine c)) of
                   None \<Rightarrow> [] | Some f \<Rightarrow> [ExitAction (name (current_state (machine c)))])
              @ (case action r of
                   None \<Rightarrow> [] | Some a \<Rightarrow> [TransitionAction ev p (name (next_state r))])
              @ (case entry_action (next_state r) of
                   None \<Rightarrow> [] | Some f \<Rightarrow> [EntryAction (name (next_state r))])
          \<and> env c' =
              (case entry_action (next_state r) of None \<Rightarrow> id | Some f \<Rightarrow> f)
                ((case action r of None \<Rightarrow> id | Some a \<Rightarrow> a p)
                   ((case exit_action (current_state (machine c)) of None \<Rightarrow> id | Some f \<Rightarrow> f)
                      (case guard_condition r of None \<Rightarrow> env c | Some g \<Rightarrow> snd (g (env c)))))"
proof (cases "guard_condition r")
  case None
  with assms(1) show ?thesis
    by (simp add: iteration_unguarded transition_machine transition_calls transition_env)
next
  case (Some g)
  with assms show ?thesis
    by (simp add: iteration_guarded transition_machine transition_calls transition_env
          split: option.split)
qed

theorem transition_order_witness:
  "required_response (machine go_start) ''go'' = Inr (Some go_AB)
   \<and> (case guard_condition go_AB of None \<Rightarrow> True | Some g \<Rightarrow> fst (g (env go_start)))
   \<and> map_sum id (calls \<circ> snd) (iteration go_start ''go'' 1) =
       Inr [InitialAction, GuardCondition ''go'' ''A'', ExitAction ''A'',
            TransitionAction ''go'' 1 ''B'', EntryAction ''B'']
   \<and> map_sum id (env \<circ> snd) (iteration go_start ''go'' 1) =
       Inr [''initial'', ''guard'', ''exit A'', ''act'', ''enter B'']
   \<and> map_sum id (current_state \<circ> machine \<circ> snd) (iteration go_start ''go'' 1) =
       Inr st_B"
proof -
  have found: "required_response (machine go_start) ''go'' = Inr (Some go_AB)"
    by (simp add: required_response_def go_start_def go_machine_eq state_defs)
  have guard: "case guard_condition go_AB of None \<Rightarrow> True
               | Some g \<Rightarrow> fst (g (env go_start))"
    by (simp add: state_defs)
  from transition_order [OF found guard, of 1] found guard show ?thesis
    by (auto simp: go_start_def go_machine_eq state_defs)
qed

subsection \<open>A guard that returns false\<close>

text \<open>
  Claim C3, as amended: when a response is found and its guard is present and false, the
  iteration invokes the guard and no exit, entry or transition callback, leaves the
  current state as it is and skips the end-state check, also when the current state is
  an end state; the loop then takes the next event of the source and dispatches it as
  usual, or returns when the source is exhausted.
\<close>

theorem guard_false_suppresses:
  assumes "nxt (source c) = Some ((ev, p), rest)"
    and "required_response (machine c) ev = Inr (Some r)"
    and "guard_condition r = Some g"
    and "\<not> fst (g (env c))"
  shows "(let c' = c\<lparr>source := rest, env := snd (g (env c)),
                     calls := calls c @ [GuardCondition ev (name (current_state (machine c)))]\<rparr>
          in iteration (c\<lparr>source := rest\<rparr>) ev p = Inr (False, c')
             \<and> run_loop nxt c =
                 (case nxt rest of
                    None \<Rightarrow> Some (Inr c')
                  | Some ((ev', p'), rest') \<Rightarrow>
                      (case iteration (c'\<lparr>source := rest'\<rparr>) ev' p' of
                         Inl e \<Rightarrow> Some (Inl (e, c'\<lparr>source := rest'\<rparr>))
                       | Inr (stop, c'') \<Rightarrow> if stop then Some (Inr c'') else run_loop nxt c'')))"
proof -
  let ?c' = "c\<lparr>source := rest, env := snd (g (env c)),
               calls := calls c @ [GuardCondition ev (name (current_state (machine c)))]\<rparr>"
  have it: "iteration (c\<lparr>source := rest\<rparr>) ev p = Inr (False, ?c')"
    using assms(2-4) by (simp add: iteration_guarded)
  with assms(1) have "run_loop nxt c = run_loop nxt ?c'"
    by (subst run_loop.simps) simp
  also have "\<dots> = (case nxt rest of
                    None \<Rightarrow> Some (Inr ?c')
                  | Some ((ev', p'), rest') \<Rightarrow>
                      (case iteration (?c'\<lparr>source := rest'\<rparr>) ev' p' of
                         Inl e \<Rightarrow> Some (Inl (e, ?c'\<lparr>source := rest'\<rparr>))
                       | Inr (stop, c'') \<Rightarrow> if stop then Some (Inr c'') else run_loop nxt c''))"
    by (subst run_loop.simps) simp
  finally show ?thesis using it by (simp add: Let_def)
qed

theorem guard_false_suppresses_witness:
  "list_source (source (start halted_machine [])) = Some ((''go'', 1), [(''tick'', 2), (''tick'', 3)])
   \<and> required_response (machine (start halted_machine [])) ''go'' = Inr (Some go_refused)
   \<and> guard_condition go_refused = Some refuse
   \<and> \<not> fst (refuse (env (start halted_machine [])))
   \<and> is_end_state (current_state (machine (start halted_machine [])))
   \<and> iteration ((start halted_machine [])\<lparr>source := [(''tick'', 2), (''tick'', 3)]\<rparr>) ''go'' 1 =
       Inr (False,
            \<lparr>machine = halted_machine, source = [(''tick'', 2), (''tick'', 3)], env = [''guard''],
             calls = [GuardCondition ''go'' ''E'']\<rparr>)
   \<and> run_loop list_source (start halted_machine []) =
       Some (Inr \<lparr>machine = halted_machine, source = [(''tick'', 3)], env = [''guard''],
                  calls = [GuardCondition ''go'' ''E'']\<rparr>)"
proof -
  have src: "list_source (source (start halted_machine [])) =
               Some ((''go'', 1), [(''tick'', 2), (''tick'', 3)])"
    by (simp add: list_source_def start_def halted_machine_eq)
  have found: "required_response (machine (start halted_machine [])) ''go'' = Inr (Some go_refused)"
    by (simp add: required_response_def start_def halted_machine_eq st_E_def state_defs)
  have guard: "guard_condition go_refused = Some refuse"
    by (simp add: go_refused_def)
  have false: "\<not> fst (refuse (env (start halted_machine [])))"
    by (simp add: refuse_def)
  have ended: "is_end_state (current_state (machine (start halted_machine [])))"
    by (simp add: start_def halted_machine_eq st_E_def state_defs)
  have tick: "iteration
                \<lparr>machine = halted_machine, source = [(''tick'', 3)], env = [''guard''],
                 calls = [GuardCondition ''go'' ''E'']\<rparr> ''tick'' 2 =
              Inr (True, \<lparr>machine = halted_machine, source = [(''tick'', 3)], env = [''guard''],
                          calls = [GuardCondition ''go'' ''E'']\<rparr>)"
    by (simp add: iteration_def required_response_def halted_machine_eq st_E_def state_defs)
  from guard_false_suppresses [where nxt = list_source and g = refuse, OF src found guard false]
    src found guard false ended tick
  show ?thesis
    by (simp add: Let_def list_source_def start_def refuse_def log_line_def halted_machine_eq
          st_E_def hashable_def State_def)
qed

text \<open>
  Claim C3 as stated has the suppressed iteration behave identically to one without a
  matching entry. On the machine that starts in the end state E they differ: for
  \<open>tick\<close>, which has a row without an entry, the iteration invokes nothing and leaves the
  loop; for \<open>go\<close>, whose guard is false, it invokes the guard and stays in the loop.
\<close>

theorem guard_false_differs_from_no_match:
  "required_response halted_machine ''tick'' = Inr None
   \<and> iteration halted_at_tick ''tick'' 2 = Inr (True, halted_at_tick)
   \<and> required_response halted_machine ''go'' = Inr (Some go_refused)
   \<and> guard_condition go_refused = Some refuse
   \<and> fst (refuse []) = False
   \<and> iteration halted_at_go ''go'' 1 =
       Inr (False, halted_at_go\<lparr>env := [''guard''], calls := [GuardCondition ''go'' ''E'']\<rparr>)"
  by (simp add: iteration_def required_response_def halted_at_go_def halted_at_tick_def
      halted_machine_eq st_E_def
      go_refused_def refuse_def state_defs)

subsection \<open>When the end-state check is reached\<close>

text \<open>
  Claim C4, as amended: an iteration whose lookup of the response returns reaches the
  end-state check unless a false guard suppresses it. The check follows a performed
  transition, and it also follows an iteration whose event has a row without an entry
  for the current state, which then leaves the loop when the unchanged current state is
  an end state. An iteration suppressed by a false guard does not leave the loop,
  whatever the current state.
\<close>

theorem end_state_check_reached:
  assumes "required_response (machine c) ev = Inr found"
  shows "\<exists>c'. iteration c ev p =
                Inr (case found of
                       None \<Rightarrow> is_end_state (current_state (machine c))
                     | Some r \<Rightarrow>
                         (case guard_condition r of
                            None \<Rightarrow> is_end_state (next_state r)
                          | Some g \<Rightarrow> fst (g (env c)) \<and> is_end_state (next_state r)),
                     c')"
proof (cases found)
  case None
  with assms show ?thesis by (simp add: iteration_no_match)
next
  case (Some r)
  with assms show ?thesis
    by (cases "guard_condition r") (simp_all add: iteration_unguarded iteration_guarded)
qed

theorem end_state_check_reached_witness:
  "required_response (machine halted_at_tick) ''tick'' = Inr None
   \<and> is_end_state (current_state (machine halted_at_tick))
   \<and> map_sum id fst (iteration halted_at_tick ''tick'' 2) = Inr True
   \<and> required_response (machine halted_at_go) ''go'' = Inr (Some go_refused)
   \<and> guard_condition go_refused = Some refuse
   \<and> fst (refuse (env halted_at_go)) = False
   \<and> map_sum id fst (iteration halted_at_go ''go'' 1) = Inr False
   \<and> required_response (machine at_B) ''go'' = Inr (Some go_BC)
   \<and> is_end_state (next_state go_BC)
   \<and> map_sum id fst (iteration at_B ''go'' 2) = Inr True"
proof -
  have none: "required_response (machine halted_at_tick) ''tick'' = Inr None"
    by (simp add: required_response_def halted_at_go_def halted_at_tick_def halted_machine_eq
          st_E_def state_defs)
  have found: "required_response (machine halted_at_go) ''go'' = Inr (Some go_refused)"
    by (simp add: required_response_def halted_at_go_def halted_at_tick_def halted_machine_eq
          st_E_def state_defs)
  have ended: "is_end_state (current_state (machine halted_at_tick))"
    by (simp add: halted_at_tick_def halted_machine_eq st_E_def state_defs)
  have guard: "guard_condition go_refused = Some refuse"
    and false: "fst (refuse (env halted_at_go)) = False"
    by (simp_all add: go_refused_def refuse_def)
  have taken: "required_response (machine at_B) ''go'' = Inr (Some go_BC)"
    by (simp add: at_B_def required_response_def go_machine_eq state_defs)
  have target: "is_end_state (next_state go_BC)" and unguarded: "guard_condition go_BC = None"
    by (simp_all add: state_defs)
  from end_state_check_reached [OF none, of 2] end_state_check_reached [OF found, of 1]
    end_state_check_reached [OF taken, of 2]
    none found ended guard false taken target unguarded
  show ?thesis by auto
qed

text \<open>
  Claim C4 as stated has an iteration without a matching response never reach the
  end-state check. The machine below starts in the end state E, the event \<open>tick\<close> has a
  row without an entry for E, and the iteration for \<open>tick\<close> leaves the loop: the run
  stops at the first \<open>tick\<close>, with the second one left in the source.
\<close>

theorem no_match_reaches_end_state_check:
  "add_table_entry (add_event halted_0 ''tick'') ''go'' st_E go_refused = Inr halted_machine
   \<and> required_response halted_machine ''tick'' = Inr None
   \<and> iteration halted_at_go ''go'' 1 =
       Inr (False, halted_at_tick\<lparr>source := [(''tick'', 2), (''tick'', 3)]\<rparr>)
   \<and> iteration halted_at_tick ''tick'' 2 = Inr (True, halted_at_tick)
   \<and> map_option (map_sum id source) (run list_source halted_machine []) =
       Some (Inr [(''tick'', 3)])"
  using halted_machine_built
  by (simp add: run_defs halted_at_go_def halted_at_tick_def halted_machine_eq st_E_def
      go_refused_def refuse_def state_defs)

subsection \<open>The current state and the set of states\<close>




subsection \<open>Reaching an end state, and the end action\<close>

text \<open>
  Claim C6: once the current state is an end state right after a performed transition,
  the loop ends and no further event is taken from the source; and after the loop has
  ended, by an end state or by the exhaustion of the source, the end action, if there is
  one, is invoked exactly once.

  From any configuration of the loop, an event whose transition is performed and leads to
  an end state makes the loop return with the iterator where that event left it, and an
  exhausted source makes it return at once. When the loop has returned, \<^verbatim>\<open>run\<close> returns:
  the loop has recorded no end action, and \<^verbatim>\<open>run\<close> adds one, as the last callback, when
  the machine has an end action, and nothing otherwise.
\<close>

theorem end_state_stops_run:
  "(nxt (source c) = Some ((ev, p), rest) \<longrightarrow>
    required_response (machine c) ev = Inr (Some r) \<longrightarrow>
    (case guard_condition r of None \<Rightarrow> True | Some g \<Rightarrow> fst (g (env c))) \<longrightarrow>
    is_end_state (next_state r) \<longrightarrow>
    (\<exists>c'. run_loop nxt c = Some (Inr c') \<and> source c' = rest
          \<and> current_state (machine c') = next_state r))
   \<and> (nxt (source c) = None \<longrightarrow> run_loop nxt c = Some (Inr c))
   \<and> (run_loop nxt (invoke (initial_action m) InitialAction (start m w)) = Some (Inr d) \<longrightarrow>
        (\<exists>d'. run nxt m w = Some (Inr d')
           \<and> EndAction \<notin> set (calls d)
           \<and> calls d' = calls d @ (case end_action m of None \<Rightarrow> [] | Some f \<Rightarrow> [EndAction])
           \<and> env d' = (case end_action m of None \<Rightarrow> env d | Some f \<Rightarrow> f (env d))
           \<and> machine d' = machine d \<and> source d' = source d))"
proof (intro conjI impI)
  assume "nxt (source c) = Some ((ev, p), rest)"
    and "required_response (machine c) ev = Inr (Some r)"
    and "case guard_condition r of None \<Rightarrow> True | Some g \<Rightarrow> fst (g (env c))"
    and "is_end_state (next_state r)"
  then show "\<exists>c'. run_loop nxt c = Some (Inr c') \<and> source c' = rest
          \<and> current_state (machine c') = next_state r"
    by (rule run_loop_end_state)
next
  assume "nxt (source c) = None"
  then show "run_loop nxt c = Some (Inr c)"
    by (subst run_loop.simps) simp
next
  assume "run_loop nxt (invoke (initial_action m) InitialAction (start m w)) = Some (Inr d)"
  from run_after_loop [OF this]
  show "\<exists>d'. run nxt m w = Some (Inr d')
           \<and> EndAction \<notin> set (calls d)
           \<and> calls d' = calls d @ (case end_action m of None \<Rightarrow> [] | Some f \<Rightarrow> [EndAction])
           \<and> env d' = (case end_action m of None \<Rightarrow> env d | Some f \<Rightarrow> f (env d))
           \<and> machine d' = machine d \<and> source d' = source d"
    by (simp add: invoke_calls invoke_env)
qed

theorem end_state_stops_run_witness:
  "list_source (source at_B) = Some ((''go'', 2), [(''go'', 3)])
   \<and> required_response (machine at_B) ''go'' = Inr (Some go_BC)
   \<and> guard_condition go_BC = None
   \<and> is_end_state (next_state go_BC)
   \<and> map_option (map_sum id source) (run_loop list_source at_B) = Some (Inr [(''go'', 3)])
   \<and> map_option (map_sum id (current_state \<circ> machine)) (run_loop list_source at_B) = Some (Inr st_C)
   \<and> StateMachine ''idle'' [] st_A None (Some (log_line ''end'')) = Inr idle_machine
   \<and> list_source (source (start idle_machine [])) = None
   \<and> run_loop list_source (start idle_machine []) = Some (Inr (start idle_machine []))
   \<and> run list_source idle_machine [] =
       Some (Inr ((start idle_machine [])\<lparr>env := [''end''], calls := [EndAction]\<rparr>))
   \<and> map_option (map_sum id calls)
        (run_loop list_source (invoke (initial_action go_machine) InitialAction (start go_machine [])))
       = Some (Inr [InitialAction, GuardCondition ''go'' ''A'', ExitAction ''A'',
                    TransitionAction ''go'' 1 ''B'', EntryAction ''B'', ExitAction ''B'',
                    EntryAction ''C''])
   \<and> map_option (map_sum id calls) (run list_source go_machine []) =
       Some (Inr [InitialAction, GuardCondition ''go'' ''A'', ExitAction ''A'',
                  TransitionAction ''go'' 1 ''B'', EntryAction ''B'', ExitAction ''B'',
                  EntryAction ''C'', EndAction])
   \<and> map_option (map_sum id source) (run list_source go_machine []) = Some (Inr [(''go'', 3)])"
proof -
  have src: "list_source (source at_B) = Some ((''go'', 2), [(''go'', 3)])"
    by (simp add: at_B_def list_source_def)
  have found: "required_response (machine at_B) ''go'' = Inr (Some go_BC)"
    by (simp add: at_B_def required_response_def go_machine_eq state_defs)
  have unguarded: "guard_condition go_BC = None"
    by (simp add: go_BC_def)
  then have guard: "case guard_condition go_BC of None \<Rightarrow> True | Some g \<Rightarrow> fst (g (env at_B))"
    by simp
  have ended: "is_end_state (next_state go_BC)"
    by (simp add: state_defs)
  have nxt: "next_state go_BC = st_C"
    by (simp add: go_BC_def)
  have out: "list_source (source (start idle_machine [])) = None"
    by (simp add: list_source_def start_def idle_machine_eq)
  have idle: "initial_action idle_machine = None" "end_action idle_machine = Some (log_line ''end'')"
    by (simp_all add: idle_machine_eq)
  have ea: "end_action go_machine = Some (log_line ''end'')"
    by (simp add: go_machine_eq)
  obtain d where loop: "run_loop list_source
                          (invoke (initial_action go_machine) InitialAction (start go_machine []))
                        = Some (Inr d)"
    and rest: "source d = [(''go'', 3)]"
    and all: "calls d = [InitialAction, GuardCondition ''go'' ''A'', ExitAction ''A'',
                    TransitionAction ''go'' 1 ''B'', EntryAction ''B'', ExitAction ''B'',
                    EntryAction ''C'']"
    by (simp add: run_loop.simps iteration_def required_response_def transition_def
          do_exit_def do_entry_def invoke_def list_source_def start_def Let_def
          go_machine_eq state_defs)
  note inst = end_state_stops_run
    [where nxt = list_source and ev = "''go''" and p = 2 and rest = "[(''go'', 3)]"
       and r = go_BC and w = "[]"]
  from inst [where c = at_B and m = go_machine and d = d] src found guard ended nxt
  have a: "map_option (map_sum id source) (run_loop list_source at_B) = Some (Inr [(''go'', 3)])"
    and b: "map_option (map_sum id (current_state \<circ> machine)) (run_loop list_source at_B) = Some (Inr st_C)"
    by auto
  from inst [where c = "start idle_machine []" and m = idle_machine and d = "start idle_machine []"]
    out idle
  have c: "run_loop list_source (start idle_machine []) = Some (Inr (start idle_machine []))"
    and e: "run list_source idle_machine [] =
       Some (Inr ((start idle_machine [])\<lparr>env := [''end''], calls := [EndAction]\<rparr>))"
    by (auto simp: invoke_def start_def log_line_def)
  from inst [where c = at_B and m = go_machine and d = d] loop ea
  obtain d' where "run list_source go_machine [] = Some (Inr d')"
    and "calls d' = calls d @ [EndAction]" and "source d' = source d"
    by auto
  with loop rest all a b c e src found unguarded ended out idle_machine_built show ?thesis by simp
qed

subsection \<open>What add_table_entry changes\<close>




subsection \<open>Registering twice\<close>



subsection \<open>The entry action of the initial state\<close>

text \<open>
  Claim C10: \<^verbatim>\<open>run\<close> never invokes the entry action of the state the machine starts
  in. Entry actions are invoked only for the state that a performed transition enters, so
  the entry action of the initial state does not fire unless a transition enters that
  state again.

  An iteration records an entry action only when it performs a transition, and then for
  the next state of the response it found; in a run that returns, every entry action
  recorded is for a state that some response of the table leads to.
\<close>

theorem entry_only_after_transition:
  "(iteration c ev p = Inr (stop, c') \<longrightarrow>
    EntryAction n \<in> set (drop (length (calls c)) (calls c')) \<longrightarrow>
    (\<exists>r. required_response (machine c) ev = Inr (Some r)
        \<and> (case guard_condition r of None \<Rightarrow> True | Some g \<Rightarrow> fst (g (env c)))
        \<and> current_state (machine c') = next_state r \<and> name (next_state r) = n))
   \<and> (run nxt m w = Some (Inr d) \<longrightarrow>
        EntryAction n \<in> set (calls d) \<longrightarrow>
        (\<exists>e row k r. state_table m e = Some row \<and> row k = Some r \<and> name (next_state r) = n))"
  using iteration_new_entry [of c ev p stop c' n] run_entries [of nxt m w d n]
  by blast

theorem entry_only_after_transition_witness:
  "add_state go_2 st_C = Inr go_machine
   \<and> entry_action (current_state go_machine) = Some (log_line ''enter A'')
   \<and> map_sum id (calls \<circ> snd) (iteration go_start ''go'' 1) =
       Inr [InitialAction, GuardCondition ''go'' ''A'', ExitAction ''A'',
            TransitionAction ''go'' 1 ''B'', EntryAction ''B'']
   \<and> required_response (machine go_start) ''go'' = Inr (Some go_AB)
   \<and> name (next_state go_AB) = ''B''
   \<and> map_option (map_sum id calls) (run list_source go_machine []) =
       Some (Inr [InitialAction, GuardCondition ''go'' ''A'', ExitAction ''A'',
                  TransitionAction ''go'' 1 ''B'', EntryAction ''B'', ExitAction ''B'',
                  EntryAction ''C'', EndAction])
   \<and> map_option (map_sum id (\<lambda>d. EntryAction ''A'' \<in> set (calls d)))
        (run list_source go_machine []) = Some (Inr False)"
proof -
  have entry: "entry_action (current_state go_machine) = Some (log_line ''enter A'')"
    by (simp add: go_machine_eq state_defs)
  obtain c' where it: "iteration go_start ''go'' 1 = Inr (False, c')"
    and new: "calls c' = [InitialAction, GuardCondition ''go'' ''A'', ExitAction ''A'',
                          TransitionAction ''go'' 1 ''B'', EntryAction ''B'']"
    by (simp add: run_defs go_start_def go_machine_eq state_defs)
  have none: "calls go_start = [InitialAction]"
    by (simp add: go_start_def)
  from new none
  have inB: "EntryAction ''B'' \<in> set (drop (length (calls go_start)) (calls c'))"
    by simp
  obtain d where run: "run list_source go_machine [] = Some (Inr d)"
    and all: "calls d = [InitialAction, GuardCondition ''go'' ''A'', ExitAction ''A'',
                  TransitionAction ''go'' 1 ''B'', EntryAction ''B'', ExitAction ''B'',
                  EntryAction ''C'', EndAction]"
    by (simp add: run_defs go_machine_eq state_defs)
  have table: "state_table go_machine = [''go'' \<mapsto> [(1, ''A'') \<mapsto> go_AB, (2, ''B'') \<mapsto> go_BC]]"
    and targets: "name (next_state go_AB) = ''B''" "name (next_state go_BC) = ''C''"
    by (simp_all add: go_machine_eq state_defs)
  from entry_only_after_transition
         [where c = go_start and ev = "''go''" and p = 1 and stop = False and c' = c'
            and n = "''B''" and nxt = list_source and m = go_machine and w = "[]" and d = d]
       it inB
  obtain r where found: "required_response (machine go_start) ''go'' = Inr (Some r)"
    and r: "name (next_state r) = ''B''"
    by blast
  have "EntryAction ''A'' \<notin> set (calls d)"
  proof
    assume "EntryAction ''A'' \<in> set (calls d)"
    with entry_only_after_transition
         [where c = go_start and ev = "''go''" and p = 1 and stop = False and c' = c'
            and n = "''A''" and nxt = list_source and m = go_machine and w = "[]" and d = d]
       run
    obtain e row k r where "state_table go_machine e = Some row" and "row k = Some r"
      and "name (next_state r) = ''A''"
      by blast
    with targets show False
      unfolding table by (auto split: if_splits)
  qed
  moreover have "required_response (machine go_start) ''go'' = Inr (Some go_AB)"
    by (simp add: required_response_def go_start_def go_machine_eq state_defs)
  ultimately show ?thesis using entry it new run all targets go_machine_built by simp
qed

end
